theory Spec2Isabelle
  imports Main "HOL-Library.Sublist"
begin

section \<open>Data model\<close>

text \<open>
  JavaScript values as far as the service looks at them: the payload of an error,
  the input of a tool call, the output of a tool. Objects are finite trees of
  fields; an \<open>Error\<close> instance carries its message and its further properties.
  Numbers are only passed around, never computed with, so integral ones suffice.
\<close>

datatype js_value =
    JUndefined
  | JNull
  | JBool bool
  | JNum int
  | JStr string
  | JError string "(string \<times> js_value) list"
  | JObj "(string \<times> js_value) list"
  | JArr "js_value list"
  | JFunction string

text \<open>The \<open>output\<close> of a ToolResultPart: a tagged union of four kinds.\<close>

datatype tool_output =
    OText string
  | OJson js_value
  | OErrorText string
  | OErrorJson js_value


text \<open>
  The parts of a multi-part content, the union the callback of \<open>findIndex\<close> lists:
  TextPart, FilePart, ReasoningPart, ToolCallPart (toolCallId, toolName, input) and
  ToolResultPart (toolCallId, toolName, output).
\<close>

datatype part =
    TextPart string
  | FilePart js_value
  | ReasoningPart string
  | ToolCallPart string string js_value
  | ToolResultPart string string tool_output

datatype role = User | Assistant | System | Tool

datatype content = Text string | Parts "part list"

record meta =
  is_error :: "bool option"
  timestamp :: "nat option"
  session_id :: "string option"
  other_fields :: "(string \<times> js_value) list"

record ChatMessage =
  role :: role
  content :: content
  metadata :: "meta option"

text \<open>
  The chunks of \<open>result.fullStream\<close>, one constructor for each \<open>case\<close> of the
  switch that does something or logs something; \<open>Marker\<close> stands for the chunk
  types of the empty last case and for any type the switch does not list (it has
  no default branch), with the type name as argument.
\<close>

datatype chunk =
    TextDelta string
  | Finish string
  | StreamError js_value
  | ToolInputStart string string
  | ToolInputDelta string string
  | ToolCall string string js_value
  | FileChunk
  | AbortChunk
  | SourceChunk
  | ToolResult string string js_value
  | ToolError string string js_value
  | Marker string

text \<open>
  What one call of \<open>query\<close> takes from outside the repository's code:
  \<^item> the built-ins \<open>String\<close> and \<open>JSON.stringify\<close> of the JavaScript runtime,
    total on the values above (a finite tree has no cycle for \<open>JSON.stringify\<close>
    to fail on);
  \<^item> \<open>guessToolResultOutput\<close>, imported from
    \<open>./chunkToolOutputToMessageToolOutput\<close>, a file that is not part of the
    sources at hand: the reducer is verified for every such function;
  \<^item> \<open>sessionId\<close>, the value of \<open>`session_${Date.now()}`\<close> computed once before
    the stream is opened;
  \<^item> \<open>date_now k\<close>, what \<open>Date.now()\<close> returns once \<open>k\<close> chunks have been
    processed;
  \<^item> \<open>aborted k\<close>, what \<open>abortController.signal.aborted\<close> reads when the loop
    body is entered after \<open>k\<close> chunks have been processed.
\<close>

record env =
  js_String :: "js_value \<Rightarrow> string"
  js_JSON_stringify :: "js_value \<Rightarrow> string"
  guessToolResultOutput :: "js_value \<Rightarrow> tool_output"
  sessionId :: string
  date_now :: "nat \<Rightarrow> nat"
  aborted :: "nat \<Rightarrow> bool"

section \<open>The error-message normalizer\<close>

text \<open>
  \<open>extractErrorMessage\<close>, branch by branch in the order of the source: null and
  undefined; a string; an \<open>Error\<close> instance; any other object (an array is one),
  where a string \<open>message\<close> is looked for first and a string \<open>type\<close> second;
  everything else.
\<close>

definition string_field :: "(string \<times> js_value) list \<Rightarrow> string \<Rightarrow> string option" where
  "string_field props name =
     (case map_of props name of Some (JStr s) \<Rightarrow> Some s | _ \<Rightarrow> None)"

fun extractErrorMessage :: "env \<Rightarrow> js_value \<Rightarrow> string" where
  "extractErrorMessage env JNull = ''Unknown error occurred''"
| "extractErrorMessage env JUndefined = ''Unknown error occurred''"
| "extractErrorMessage env (JStr s) = s"
| "extractErrorMessage env (JError message props) = message"
| "extractErrorMessage env (JObj props) =
     (case string_field props ''message'' of
        Some message \<Rightarrow>
          (case string_field props ''type'' of
             Some ty \<Rightarrow> ty @ '': '' @ message
           | None \<Rightarrow> message)
      | None \<Rightarrow> js_JSON_stringify env (JObj props))"
| "extractErrorMessage env (JArr xs) = js_JSON_stringify env (JArr xs)"
| "extractErrorMessage env v = js_String env v"

section \<open>The reducer\<close>

subsection \<open>The Turns the switch builds\<close>

definition error_turn :: "env \<Rightarrow> string \<Rightarrow> nat \<Rightarrow> ChatMessage" where
  "error_turn env errorMsg now =
     \<lparr>role = Assistant, content = Text errorMsg,
      metadata = Some \<lparr>is_error = Some True, timestamp = Some now,
                       session_id = Some (sessionId env), other_fields = []\<rparr>\<rparr>"

definition tool_call_turn :: "string \<Rightarrow> string \<Rightarrow> js_value \<Rightarrow> ChatMessage" where
  "tool_call_turn toolCallId toolName input =
     \<lparr>role = Assistant, content = Parts [ToolCallPart toolCallId toolName input],
      metadata = None\<rparr>"

definition tool_result_turn :: "string \<Rightarrow> string \<Rightarrow> tool_output \<Rightarrow> meta option \<Rightarrow> ChatMessage" where
  "tool_result_turn toolCallId toolName output md =
     \<lparr>role = Tool, content = Parts [ToolResultPart toolCallId toolName output],
      metadata = md\<rparr>"

definition error_flag_only :: meta where
  "error_flag_only =
     \<lparr>is_error = Some True, timestamp = None, session_id = None, other_fields = []\<rparr>"

subsection \<open>What a chunk does to \<open>updatedMessages\<close>\<close>

text \<open>
  The switch treats the variable \<open>updatedMessages\<close> in three ways, and the
  difference is visible to whoever holds an array handed out earlier:
  \<^item> \<open>Rebind xs\<close>: \<open>updatedMessages = [...]\<close>, a fresh array is built and the
    variable is pointed at it;
  \<^item> \<open>StoreAt i msg\<close>: \<open>updatedMessages[i] = msg\<close>, a slot of the array the
    variable points at is overwritten;
  \<^item> \<open>NoChange\<close>: the case only logs, or is empty.
\<close>

datatype update = Rebind "ChatMessage list" | StoreAt nat ChatMessage | NoChange

text \<open>\<open>metadata?.is_error !== true\<close>\<close>

definition not_flagged_error :: "ChatMessage \<Rightarrow> bool" where
  "not_flagged_error m =
     (case metadata m of None \<Rightarrow> True | Some md \<Rightarrow> is_error md \<noteq> Some True)"

text \<open>\<open>typeof content === 'string'\<close>, and the string it then is.\<close>

fun is_text :: "content \<Rightarrow> bool" where
  "is_text (Text s) = True"
| "is_text (Parts ps) = False"

fun text_of :: "content \<Rightarrow> string" where
  "text_of (Text s) = s"
| "text_of (Parts ps) = []"

text \<open>
  Case \<open>text-delta\<close>, with the four conjuncts of its condition in the order of
  the source. \<open>updatedMessages[length - 1]\<close> is \<open>undefined\<close> on an empty array;
  \<open>slice(0, -1)\<close> is the array without its last element.
\<close>

definition text_delta :: "ChatMessage list \<Rightarrow> string \<Rightarrow> update" where
  "text_delta msgs text =
     (if msgs \<noteq> [] \<and> role (last msgs) = Assistant \<and> is_text (content (last msgs))
         \<and> not_flagged_error (last msgs)
      then Rebind (butlast msgs @
             [(last msgs)\<lparr>content := Text (text_of (content (last msgs)) @ text)\<rparr>])
      else Rebind (msgs @ [\<lparr>role = Assistant, content = Text text, metadata = None\<rparr>]))"

text \<open>\<open>Array.prototype.findIndex\<close>, with \<open>None\<close> for the result \<open>-1\<close>.\<close>

fun findIndex :: "('a \<Rightarrow> bool) \<Rightarrow> 'a list \<Rightarrow> nat option" where
  "findIndex p [] = None"
| "findIndex p (x # xs) =
     (if p x then Some 0 else map_option Suc (findIndex p xs))"

fun is_tool_call :: "string \<Rightarrow> part \<Rightarrow> bool" where
  "is_tool_call toolCallId (ToolCallPart i n inp) = (i = toolCallId)"
| "is_tool_call toolCallId p = False"

text \<open>
  Case \<open>tool-call\<close>, the loop \<open>for (let i = length - 1; i >= 0; i--)\<close>:
  \<open>scan_back msgs id name inp n\<close> visits the indices \<open>n - 1\<close> down to \<open>0\<close> and
  stops at the first assistant message with array content that holds a tool-call
  part of this id, returning the index and the message rebuilt with that part
  replaced (\<open>{...msg, content}\<close> over a copy of the content).
\<close>

fun scan_back ::
  "ChatMessage list \<Rightarrow> string \<Rightarrow> string \<Rightarrow> js_value \<Rightarrow> nat \<Rightarrow> (nat \<times> ChatMessage) option" where
  "scan_back msgs toolCallId toolName input 0 = None"
| "scan_back msgs toolCallId toolName input (Suc i) =
     (let msg = msgs ! i in
        case content msg of
          Parts ps \<Rightarrow>
            if role msg = Assistant then
              (case findIndex (is_tool_call toolCallId) ps of
                 Some toolCallIndex \<Rightarrow>
                   Some (i, msg\<lparr>content :=
                     Parts (ps[toolCallIndex := ToolCallPart toolCallId toolName input])\<rparr>)
               | None \<Rightarrow> scan_back msgs toolCallId toolName input i)
            else scan_back msgs toolCallId toolName input i
        | Text t \<Rightarrow> scan_back msgs toolCallId toolName input i)"

definition tool_call :: "ChatMessage list \<Rightarrow> string \<Rightarrow> string \<Rightarrow> js_value \<Rightarrow> update" where
  "tool_call msgs toolCallId toolName input =
     (case scan_back msgs toolCallId toolName input (length msgs) of
        Some (i, msg) \<Rightarrow> StoreAt i msg
      | None \<Rightarrow> Rebind (msgs @ [tool_call_turn toolCallId toolName input]))"

text \<open>
  The switch. \<open>k\<close> is the number of chunks processed before this one; it selects
  the clock reading of the \<open>error\<close> case.
\<close>

fun switch :: "env \<Rightarrow> nat \<Rightarrow> ChatMessage list \<Rightarrow> chunk \<Rightarrow> update" where
  "switch env k msgs (TextDelta text) = text_delta msgs text"
| "switch env k msgs (Finish reason) = NoChange"
| "switch env k msgs (StreamError e) =
     Rebind (msgs @ [error_turn env (extractErrorMessage env e) (date_now env k)])"
| "switch env k msgs (ToolInputStart toolCallId toolName) =
     Rebind (msgs @ [tool_call_turn toolCallId toolName (JObj [])])"
| "switch env k msgs (ToolInputDelta toolCallId delta) = NoChange"
| "switch env k msgs (ToolCall toolCallId toolName input) =
     tool_call msgs toolCallId toolName input"
| "switch env k msgs FileChunk = NoChange"
| "switch env k msgs AbortChunk = NoChange"
| "switch env k msgs SourceChunk = NoChange"
| "switch env k msgs (ToolResult toolCallId toolName output) =
     Rebind (msgs @ [tool_result_turn toolCallId toolName
                       (guessToolResultOutput env output) None])"
| "switch env k msgs (ToolError toolCallId toolName e) =
     Rebind (msgs @ [tool_result_turn toolCallId toolName
                       (guessToolResultOutput env e) (Some error_flag_only)])"
| "switch env k msgs (Marker ty) = NoChange"

subsection \<open>Arrays, the variable, the observer\<close>

text \<open>
  Arrays live in a store, addressed by numbers. \<open>updatedMessages\<close> holds an
  address, \<open>onMessage\<close> receives one, \<open>query\<close> returns one. Messages and contents
  are values: the source never writes into a message or a content array that is
  already part of a transcript (it spreads them into new ones), only into the
  outer array. \<open>onMessage_calls\<close> keeps, for every call of the observer in order,
  the address it was given and what the array held at that moment; \<open>processed\<close>
  counts the chunks handled so far, the index at which the signal and the clock
  are read.
\<close>

record session =
  arrays :: "nat \<Rightarrow> ChatMessage list"
  next_free :: nat
  updatedMessages :: nat
  onMessage_calls :: "(nat \<times> ChatMessage list) list"
  processed :: nat

definition current :: "session \<Rightarrow> ChatMessage list" where
  "current s = arrays s (updatedMessages s)"

fun commit :: "session \<Rightarrow> update \<Rightarrow> session" where
  "commit s (Rebind xs) =
     s\<lparr>arrays := (arrays s)(next_free s := xs),
       updatedMessages := next_free s,
       next_free := Suc (next_free s)\<rparr>"
| "commit s (StoreAt i msg) =
     s\<lparr>arrays := (arrays s)(updatedMessages s := (current s)[i := msg])\<rparr>"
| "commit s NoChange = s"

definition onMessage :: "session \<Rightarrow> session" where
  "onMessage s = s\<lparr>onMessage_calls := onMessage_calls s @ [(updatedMessages s, current s)]\<rparr>"

text \<open>
  The loop \<open>for await (const chunk of result.fullStream)\<close>. The stream is the
  list of chunks it yields and, optionally, the exception with which the
  iteration rejects after them. \<open>loop_body\<close> is one pass: the switch, then
  \<open>onMessage(updatedMessages)\<close>; the abort check comes before it. The result of
  the loop is the exception that leaves it, if any, and the session at that point.
\<close>

definition loop_body :: "env \<Rightarrow> session \<Rightarrow> chunk \<Rightarrow> session" where
  "loop_body env s chunk =
     (onMessage (commit s (switch env (processed s) (current s) chunk)))
       \<lparr>processed := Suc (processed s)\<rparr>"

fun for_await :: "env \<Rightarrow> js_value option \<Rightarrow> chunk list \<Rightarrow> session \<Rightarrow> js_value option \<times> session" where
  "for_await env rejection [] s = (rejection, s)"
| "for_await env rejection (chunk # rest) s =
     (if aborted env (processed s) then (Some (JError ''Operation cancelled'' []), s)
      else for_await env rejection rest (loop_body env s chunk))"

text \<open>
  \<open>query\<close>, from \<open>let updatedMessages = conversationHistory\<close> on: the variable
  starts as the caller's own array (address 0). The result is \<open>Inr\<close> the address
  returned or \<open>Inl\<close> the exception rethrown by the catch block, with the session
  at the end.
\<close>

definition start :: "ChatMessage list \<Rightarrow> session" where
  "start conversationHistory =
     \<lparr>arrays = (\<lambda>a. [])(0 := conversationHistory), next_free = 1, updatedMessages = 0,
      onMessage_calls = [], processed = 0\<rparr>"

definition catch_block :: "env \<Rightarrow> js_value \<Rightarrow> session \<Rightarrow> session" where
  "catch_block env error s =
     onMessage (commit s (Rebind (current s @
       [error_turn env (extractErrorMessage env error) (date_now env (processed s))])))"

definition query ::
  "env \<Rightarrow> ChatMessage list \<Rightarrow> chunk list \<Rightarrow> js_value option \<Rightarrow> (js_value + nat) \<times> session" where
  "query env conversationHistory chunks rejection =
     (case for_await env rejection chunks (start conversationHistory) of
        (None, s) \<Rightarrow> (Inr (updatedMessages s), s)
      | (Some error, s) \<Rightarrow> (Inl error, catch_block env error s))"

section \<open>Reading a run\<close>

text \<open>
  The transcript as a value. \<open>apply_update\<close> is what an update does to the
  contents of \<open>updatedMessages\<close>, whichever array holds them; \<open>after_chunk\<close> is
  the transcript after one pass of the switch; \<open>trace\<close> lists the transcripts
  after each chunk the loop gets to process, that is, up to the first abort check
  that fires. They are related to the loop over the store in the lemmas below.
\<close>

fun apply_update :: "ChatMessage list \<Rightarrow> update \<Rightarrow> ChatMessage list" where
  "apply_update msgs (Rebind xs) = xs"
| "apply_update msgs (StoreAt i msg) = msgs[i := msg]"
| "apply_update msgs NoChange = msgs"

definition after_chunk :: "env \<Rightarrow> nat \<Rightarrow> ChatMessage list \<Rightarrow> chunk \<Rightarrow> ChatMessage list" where
  "after_chunk env k msgs c = apply_update msgs (switch env k msgs c)"

fun trace :: "env \<Rightarrow> nat \<Rightarrow> ChatMessage list \<Rightarrow> chunk list \<Rightarrow> ChatMessage list list" where
  "trace env k msgs [] = []"
| "trace env k msgs (c # cs) =
     (if aborted env k then []
      else after_chunk env k msgs c # trace env (Suc k) (after_chunk env k msgs c) cs)"

text \<open>
  Of the result of \<open>query\<close>: \<open>snapshots\<close> are the transcripts the observer was
  handed, in order, as they were at the moment of each call; \<open>final_transcript\<close>
  is the contents of \<open>updatedMessages\<close> at the end. \<open>loop_exit\<close> is the exception
  that takes the run into the catch block, if there is one.
\<close>

definition snapshots :: "(js_value + nat) \<times> session \<Rightarrow> ChatMessage list list" where
  "snapshots r = map snd (onMessage_calls (snd r))"

definition final_transcript :: "(js_value + nat) \<times> session \<Rightarrow> ChatMessage list" where
  "final_transcript r = current (snd r)"

definition loop_exit :: "env \<Rightarrow> ChatMessage list \<Rightarrow> chunk list \<Rightarrow> js_value option \<Rightarrow> js_value option" where
  "loop_exit env history cs rej =
     (if length (trace env 0 history cs) < length cs
      then Some (JError ''Operation cancelled'' []) else rej)"

section \<open>Plain-text Turns that accept more text\<close>

text \<open>
  The condition of the \<open>text-delta\<close> case, as a predicate on the transcript:
  there is a last Turn, it is an assistant Turn, its content is a string, and it
  is not flagged as an error. \<open>append_text\<close> is what the case then does with a
  fragment, and what it does otherwise.
\<close>

definition mergeable :: "ChatMessage list \<Rightarrow> bool" where
  "mergeable T =
     (T \<noteq> [] \<and> role (last T) = Assistant \<and> is_text (content (last T))
      \<and> not_flagged_error (last T))"

definition append_text :: "ChatMessage list \<Rightarrow> string \<Rightarrow> ChatMessage list" where
  "append_text T t =
     (if mergeable T
      then butlast T @ [(last T)\<lparr>content := Text (text_of (content (last T)) @ t)\<rparr>]
      else T @ [\<lparr>role = Assistant, content = Text t, metadata = None\<rparr>])"

section \<open>Growth of a transcript\<close>

text \<open>
  What it means for the transcript only to grow. A ToolCall Part grows into a
  ToolCall Part of the same id and tool name whose input is the same, or is
  whatever it is now if the input was still the empty one of an opened call; any
  other Part grows into itself only. A Turn grows into a Turn of the same role
  and metadata whose text has the old text as a prefix, or whose Parts are as
  many as before and grow one by one. A transcript \<open>T'\<close> extends \<open>T\<close> when it
  is at least as long and each Turn of \<open>T\<close> grows into the Turn of \<open>T'\<close> at its
  position.
\<close>

fun part_grows :: "part \<Rightarrow> part \<Rightarrow> bool" where
  "part_grows (ToolCallPart i nm inp) (ToolCallPart i' nm' inp') =
     (i' = i \<and> nm' = nm \<and> (inp' = inp \<or> inp = JObj []))"
| "part_grows p p' = (p' = p)"

definition turn_grows :: "ChatMessage \<Rightarrow> ChatMessage \<Rightarrow> bool" where
  "turn_grows m m' =
     (role m' = role m \<and> metadata m' = metadata m \<and>
      (case content m of
         Text s \<Rightarrow> (case content m' of Text s' \<Rightarrow> prefix s s' | Parts ps' \<Rightarrow> False)
       | Parts ps \<Rightarrow> (case content m' of Text s' \<Rightarrow> False | Parts ps' \<Rightarrow> list_all2 part_grows ps ps')))"

definition extends :: "ChatMessage list \<Rightarrow> ChatMessage list \<Rightarrow> bool" where
  "extends T T' = (length T \<le> length T' \<and> list_all2 turn_grows T (take (length T) T'))"

section \<open>The history inside a transcript\<close>

text \<open>
  \<open>holds_call i m\<close> is the test of the backward scan: \<open>m\<close> is an assistant
  message with array content in which \<open>findIndex\<close> finds a tool call of id \<open>i\<close>.
  A chunk is fresh for a history unless it is a finalized tool call whose id some
  Turn of the history holds. A chunk is quiet when its case of the switch leaves
  \<open>updatedMessages\<close> alone. \<open>keeps history T\<close> is the invariant of a run on fresh
  chunks: \<open>T\<close> is at least as long as the history, agrees with it before the
  history's last position, and at that position has the history's last Turn or a
  plain-text Turn.
\<close>

definition holds_call :: "string \<Rightarrow> ChatMessage \<Rightarrow> bool" where
  "holds_call i m =
     (role m = Assistant \<and>
      (case content m of
         Parts ps \<Rightarrow> findIndex (is_tool_call i) ps \<noteq> None
       | Text s \<Rightarrow> False))"

fun fresh_for :: "ChatMessage list \<Rightarrow> chunk \<Rightarrow> bool" where
  "fresh_for history (ToolCall i nm inp) = (\<not> list_ex (holds_call i) history)"
| "fresh_for history c = True"

fun quiet :: "chunk \<Rightarrow> bool" where
  "quiet (Finish reason) = True"
| "quiet (ToolInputDelta i delta) = True"
| "quiet FileChunk = True"
| "quiet AbortChunk = True"
| "quiet SourceChunk = True"
| "quiet (Marker ty) = True"
| "quiet c = False"

definition keeps :: "ChatMessage list \<Rightarrow> ChatMessage list \<Rightarrow> bool" where
  "keeps history T =
     (length history \<le> length T \<and> take (length history - 1) T = butlast history \<and>
      (history = [] \<or> T ! (length history - 1) = last history
       \<or> is_text (content (T ! (length history - 1)))))"

section \<open>Streams that finalize each call once\<close>

text \<open>
  A stream is orderly when no id is finalized twice and every finalized call
  names the tool that the events which opened its id named. \<open>awaiting n T cs\<close>
  is the invariant of a run on such a stream: from position \<open>n\<close> on, every
  ToolCall Part of \<open>T\<close> whose id is still to be finalized by \<open>cs\<close> has that
  call's tool name and the empty input.
\<close>

fun agrees_with_open :: "string \<Rightarrow> string \<Rightarrow> chunk \<Rightarrow> bool" where
  "agrees_with_open i nm (ToolCall i' nm' inp) = (i' \<noteq> i \<or> nm' = nm)"
| "agrees_with_open i nm c = True"

fun other_call :: "string \<Rightarrow> chunk \<Rightarrow> bool" where
  "other_call i (ToolCall i' nm inp) = (i' \<noteq> i)"
| "other_call i c = True"

fun orderly :: "chunk list \<Rightarrow> bool" where
  "orderly [] = True"
| "orderly (ToolInputStart i nm # cs) = (list_all (agrees_with_open i nm) cs \<and> orderly cs)"
| "orderly (ToolCall i nm inp # cs) = (list_all (other_call i) cs \<and> orderly cs)"
| "orderly (c # cs) = orderly cs"

definition awaiting :: "nat \<Rightarrow> ChatMessage list \<Rightarrow> chunk list \<Rightarrow> bool" where
  "awaiting n T cs =
     (\<forall>i nm inp j ps p.
        ToolCall i nm inp \<in> set cs \<and> n \<le> j \<and> j < length T \<and> content (T ! j) = Parts ps
          \<and> p \<in> set ps \<and> is_tool_call i p
        \<longrightarrow> p = ToolCallPart i nm (JObj []))"

section \<open>The classifier of tool outputs\<close>

text \<open>
  Modelled from the spec: \<open>guessToolResultOutput\<close>, defined in
  \<open>./chunkToolOutputToMessageToolOutput\<close>, which is not among the sources. The
  spec (4.3) describes a best-effort classifier. On success: strings and
  already-text-shaped payloads become \<open>text\<close>; structured values become \<open>json\<close>;
  classification never fails, an unclassifiable value falls back to its string
  form. On a thrown or returned failure: the output is coerced to \<open>error-text\<close>
  or \<open>error-json\<close> using the same classifier applied to the error payload.

  Both calls in \<open>query\<close> pass the function the payload and nothing else, so it
  can tell a failure only by the payload: a failure is an \<open>Error\<close> instance, the
  exception a tool threw. Its payload is its message or, when it carries further
  properties, the object of the message and those properties. A payload counts
  as text-shaped when it is an object with \<open>type\<close> equal to \<open>text\<close> and a string
  \<open>value\<close>, as structured when it is any other plain object or an array.
\<close>

fun classify_payload :: "(js_value \<Rightarrow> string) \<Rightarrow> js_value \<Rightarrow> tool_output" where
  "classify_payload String (JStr s) = OText s"
| "classify_payload String (JObj props) =
     (if map_of props ''type'' = Some (JStr ''text'')
      then (case string_field props ''value'' of
              Some s \<Rightarrow> OText s
            | None \<Rightarrow> OJson (JObj props))
      else OJson (JObj props))"
| "classify_payload String (JArr xs) = OJson (JArr xs)"
| "classify_payload String v = OText (String v)"

fun as_failure :: "tool_output \<Rightarrow> tool_output" where
  "as_failure (OText s) = OErrorText s"
| "as_failure (OJson v) = OErrorJson v"
| "as_failure out = out"

fun guessToolResultOutput_spec :: "(js_value \<Rightarrow> string) \<Rightarrow> js_value \<Rightarrow> tool_output" where
  "guessToolResultOutput_spec String (JError message props) =
     as_failure (classify_payload String
       (if props = [] then JStr message else JObj ((''message'', JStr message) # props)))"
| "guessToolResultOutput_spec String v = classify_payload String v"

section \<open>An environment for examples\<close>

text \<open>
  The classifier as the spec describes it, a signal that is never set, a clock
  that advances by one per chunk. None of the examples reaches \<open>String\<close> or
  \<open>JSON.stringify\<close>; they are given the answers for an empty plain object.
\<close>

definition example_env :: env where
  "example_env =
     \<lparr>js_String = (\<lambda>v. ''[object Object]''),
      js_JSON_stringify = (\<lambda>v. ''{}''),
      guessToolResultOutput = guessToolResultOutput_spec (\<lambda>v. ''[object Object]''),
      sessionId = ''session_1700000000000'',
      date_now = (\<lambda>k. 1700000000000 + k),
      aborted = (\<lambda>k. False)\<rparr>"

definition example_history :: "ChatMessage list" where
  "example_history = [\<lparr>role = User, content = Text ''design a login screen'', metadata = None\<rparr>]"

definition answered_history :: "ChatMessage list" where
  "answered_history =
     [\<lparr>role = User, content = Text ''design a login screen'', metadata = None\<rparr>,
      \<lparr>role = Assistant, content = Text ''Sure'', metadata = None\<rparr>]"

section \<open>The loop over the store and the transcript values\<close>

lemma current_commit: "current (commit s u) = apply_update (current s) u"
  by (cases u) (simp_all add: current_def)

lemma current_onMessage: "current (onMessage s) = current s"
  by (simp add: onMessage_def current_def)

lemma current_processed: "current (s\<lparr>processed := n\<rparr>) = current s"
  by (simp add: current_def)

lemma calls_commit: "onMessage_calls (commit s u) = onMessage_calls s"
  by (cases u) simp_all

lemma calls_onMessage:
  "map snd (onMessage_calls (onMessage s)) = map snd (onMessage_calls s) @ [current s]"
  by (simp add: onMessage_def)

lemma body_current: "current (loop_body env s c) = after_chunk env (processed s) (current s) c"
  by (simp only: loop_body_def after_chunk_def current_commit current_onMessage current_processed)

lemma body_calls:
  "map snd (onMessage_calls (loop_body env s c))
     = map snd (onMessage_calls s) @ [after_chunk env (processed s) (current s) c]"
  by (simp add: loop_body_def after_chunk_def calls_onMessage current_commit calls_commit
        del: switch.simps)

lemma body_processed: "processed (loop_body env s c) = Suc (processed s)"
  by (simp add: loop_body_def)

lemmas step_facts = body_current body_calls body_processed

lemma for_await_calls:
  "map snd (onMessage_calls (snd (for_await env rej cs s)))
     = map snd (onMessage_calls s) @ trace env (processed s) (current s) cs"
proof (induction cs arbitrary: s)
  case Nil
  show ?case by simp
next
  case (Cons c cs)
  show ?case
    by (simp add: Cons.IH step_facts)
qed

lemma for_await_current:
  "current (snd (for_await env rej cs s))
     = last (current s # trace env (processed s) (current s) cs)"
proof (induction cs arbitrary: s)
  case Nil
  show ?case by simp
next
  case (Cons c cs)
  show ?case
    by (simp add: Cons.IH step_facts)
qed

lemma for_await_processed:
  "processed (snd (for_await env rej cs s))
     = processed s + length (trace env (processed s) (current s) cs)"
proof (induction cs arbitrary: s)
  case Nil
  show ?case by simp
next
  case (Cons c cs)
  show ?case
    by (simp add: Cons.IH step_facts)
qed

lemma for_await_outcome:
  "fst (for_await env rej cs s)
     = (if length (trace env (processed s) (current s) cs) < length cs
        then Some (JError ''Operation cancelled'' []) else rej)"
proof (induction cs arbitrary: s)
  case Nil
  show ?case by simp
next
  case (Cons c cs)
  show ?case
    by (simp add: Cons.IH step_facts)
qed

lemma trace_not_aborted:
  "(\<forall>j<length cs. \<not> aborted env (k + j)) \<Longrightarrow> length (trace env k msgs cs) = length cs"
proof (induction cs arbitrary: k msgs)
  case Nil
  show ?case by simp
next
  case (Cons c cs)
  have "\<not> aborted env k" using Cons.prems by force
  moreover have "\<forall>j<length cs. \<not> aborted env (Suc k + j)"
    using Cons.prems by force
  ultimately show ?case using Cons.IH by simp
qed

lemma trace_append:
  "\<forall>j<length xs. \<not> aborted env (k + j) \<Longrightarrow>
   trace env k T (xs @ ys)
     = trace env k T xs @ trace env (k + length xs) (last (T # trace env k T xs)) ys"
proof (induction xs arbitrary: k T)
  case Nil
  show ?case by simp
next
  case (Cons x xs)
  have n0: "\<not> aborted env k" using Cons.prems by force
  have ns: "\<forall>j<length xs. \<not> aborted env (Suc k + j)" using Cons.prems by force
  show ?case using n0 Cons.IH[OF ns] by simp
qed

lemma start_facts:
  "current (start history) = history"
  "processed (start history) = 0"
  "onMessage_calls (start history) = []"
  by (simp_all add: start_def current_def)

lemma catch_current:
  "current (catch_block env e s) =
     current s @ [error_turn env (extractErrorMessage env e) (date_now env (processed s))]"
  by (simp only: catch_block_def current_onMessage current_commit apply_update.simps)

lemma catch_calls:
  "map snd (onMessage_calls (catch_block env e s)) =
     map snd (onMessage_calls s) @
     [current s @ [error_turn env (extractErrorMessage env e) (date_now env (processed s))]]"
  by (simp only: catch_block_def calls_onMessage current_commit calls_commit apply_update.simps)

lemma query_alt:
  "query env history cs rej =
     (case loop_exit env history cs rej of
        None \<Rightarrow> (Inr (updatedMessages (snd (for_await env rej cs (start history)))),
                  snd (for_await env rej cs (start history)))
      | Some e \<Rightarrow> (Inl e, catch_block env e (snd (for_await env rej cs (start history)))))"
proof -
  have "fst (for_await env rej cs (start history)) = loop_exit env history cs rej"
    by (simp add: for_await_outcome loop_exit_def start_facts)
  then show ?thesis
    by (cases "for_await env rej cs (start history)") (simp add: query_def split: option.split)
qed

lemma query_exit:
  "(case fst (query env history cs rej) of Inl e \<Rightarrow> Some e | Inr a \<Rightarrow> None)
     = loop_exit env history cs rej"
  by (simp add: query_alt split: option.split)

lemma query_snapshots:
  "snapshots (query env history cs rej) =
     trace env 0 history cs @
     (case loop_exit env history cs rej of
        None \<Rightarrow> []
      | Some e \<Rightarrow> [last (history # trace env 0 history cs) @
           [error_turn env (extractErrorMessage env e)
              (date_now env (length (trace env 0 history cs)))]])"
  by (simp add: query_alt snapshots_def catch_calls for_await_calls for_await_current
        for_await_processed start_facts split: option.split)

lemma query_final:
  "final_transcript (query env history cs rej) = last (history # snapshots (query env history cs rej))"
  by (simp add: query_snapshots)
     (simp add: query_alt final_transcript_def catch_current for_await_current
        for_await_processed start_facts split: option.split)

section \<open>The error-message normalizer, case by case\<close>

text \<open>
  C9. For every input the normalizer returns a string by the first rule that
  applies: null and undefined give the generic ``Unknown error occurred''; a
  plain string is returned verbatim; an \<open>Error\<close> instance yields its message; an
  object with a string message and a string type yields ``type: message''; an
  object with a string message and no string type yields the message; any other
  object, arrays included, is JSON-stringified; any other value (a boolean, a
  number, a function) is converted with \<open>String\<close>. The rules cover every input,
  so the generic text is the fallback for null and undefined and for nothing
  else.
\<close>

theorem extractErrorMessage_rules:
  "(e = JNull \<or> e = JUndefined \<longrightarrow> extractErrorMessage env e = ''Unknown error occurred'')
   \<and> (\<forall>s. e = JStr s \<longrightarrow> extractErrorMessage env e = s)
   \<and> (\<forall>message props. e = JError message props \<longrightarrow> extractErrorMessage env e = message)
   \<and> (\<forall>props message ty. e = JObj props \<and> string_field props ''message'' = Some message
          \<and> string_field props ''type'' = Some ty
        \<longrightarrow> extractErrorMessage env e = ty @ '': '' @ message)
   \<and> (\<forall>props message. e = JObj props \<and> string_field props ''message'' = Some message
          \<and> string_field props ''type'' = None
        \<longrightarrow> extractErrorMessage env e = message)
   \<and> (\<forall>props. e = JObj props \<and> string_field props ''message'' = None
        \<longrightarrow> extractErrorMessage env e = js_JSON_stringify env e)
   \<and> (\<forall>xs. e = JArr xs \<longrightarrow> extractErrorMessage env e = js_JSON_stringify env e)
   \<and> ((\<exists>b. e = JBool b) \<or> (\<exists>n. e = JNum n) \<or> (\<exists>src. e = JFunction src)
        \<longrightarrow> extractErrorMessage env e = js_String env e)"
  by (cases e) auto

text \<open>The rules at a typed provider error, an untyped one, an exception and null.\<close>

theorem extractErrorMessage_rules_witness:
  "extractErrorMessage example_env
     (JObj [(''type'', JStr ''overloaded_error''), (''message'', JStr ''Overloaded'')])
     = ''overloaded_error: Overloaded''
   \<and> extractErrorMessage example_env (JObj [(''message'', JStr ''Overloaded'')]) = ''Overloaded''
   \<and> extractErrorMessage example_env (JError ''fetch failed'' []) = ''fetch failed''
   \<and> extractErrorMessage example_env JNull = ''Unknown error occurred''"
  using extractErrorMessage_rules
          [of "JObj [(''type'', JStr ''overloaded_error''), (''message'', JStr ''Overloaded'')]" example_env]
        extractErrorMessage_rules [of "JObj [(''message'', JStr ''Overloaded'')]" example_env]
        extractErrorMessage_rules [of "JError ''fetch failed'' []" example_env]
        extractErrorMessage_rules [of JNull example_env]
  by (simp add: string_field_def)

section \<open>Cancellation\<close>

text \<open>
  The check at any position: when the signal is first found set as a chunk
  arrives, that chunk and all after it stay unprocessed, the observer gets what
  it got for the chunks before and then the transcript with the error Turn, and
  \<open>query\<close> rethrows.
\<close>

lemma cancelled_midstream:
  assumes "\<forall>j<length pre. \<not> aborted env j" and "aborted env (length pre)"
  shows "fst (query env history (pre @ c # cs) rej) = Inl (JError ''Operation cancelled'' [])"
    and "snapshots (query env history (pre @ c # cs) rej)
         = snapshots (query env history pre None) @
           [final_transcript (query env history pre None) @
              [error_turn env ''Operation cancelled'' (date_now env (length pre))]]"
proof -
  have npre: "\<forall>j<length pre. \<not> aborted env (0 + j)" using assms(1) by simp
  have lpre: "length (trace env 0 history pre) = length pre"
    by (rule trace_not_aborted[OF npre])
  have tr: "trace env 0 history (pre @ c # cs) = trace env 0 history pre"
    using trace_append[OF npre, of history "c # cs"] assms(2) by simp
  have x: "loop_exit env history (pre @ c # cs) rej = Some (JError ''Operation cancelled'' [])"
    by (simp add: loop_exit_def tr lpre)
  have xpre: "loop_exit env history pre None = None"
    by (simp add: loop_exit_def lpre)
  show "fst (query env history (pre @ c # cs) rej) = Inl (JError ''Operation cancelled'' [])"
    by (simp add: query_alt x)
  show "snapshots (query env history (pre @ c # cs) rej)
         = snapshots (query env history pre None) @
           [final_transcript (query env history pre None) @
              [error_turn env ''Operation cancelled'' (date_now env (length pre))]]"
    by (simp add: query_final query_snapshots x xpre tr lpre)
qed

text \<open>
  C5. If the cancellation signal is set before any chunk is processed, the check
  at the head of the loop body fires on the first chunk the stream yields (the
  stream of a model call opens with a chunk, \<open>start\<close>): that chunk is not
  processed, \<open>query\<close> rethrows the error ``Operation cancelled'', the transcript
  at the end is the history followed by one error Turn with that text, the error
  flag, the clock reading and the session id of this call, this transcript is
  the only one the observer is handed, and the caller's own array still holds the
  history.
\<close>

theorem cancelled_at_first_chunk:
  assumes "aborted env 0"
  shows "let errorTurn = \<lparr>role = Assistant, content = Text ''Operation cancelled'',
                          metadata = Some \<lparr>is_error = Some True,
                                           timestamp = Some (date_now env 0),
                                           session_id = Some (sessionId env),
                                           other_fields = []\<rparr>\<rparr>;
             r = query env history (c # cs) rej
         in fst r = Inl (JError ''Operation cancelled'' [])
          \<and> final_transcript r = history @ [errorTurn]
          \<and> snapshots r = [history @ [errorTurn]]
          \<and> arrays (snd r) 0 = history"
proof -
  have t: "trace env 0 history (c # cs) = []" using assms by simp
  have x: "loop_exit env history (c # cs) rej = Some (JError ''Operation cancelled'' [])"
    using assms by (simp add: loop_exit_def)
  have f: "for_await env rej (c # cs) (start history) = (Some (JError ''Operation cancelled'' []), start history)"
    using assms by (simp add: start_facts)
  have 1: "fst (query env history (c # cs) rej) = Inl (JError ''Operation cancelled'' [])"
    by (simp add: query_alt x)
  have 3: "snapshots (query env history (c # cs) rej)
         = [history @ [error_turn env ''Operation cancelled'' (date_now env 0)]]"
    using assms by (simp add: query_snapshots x)
  have 2: "final_transcript (query env history (c # cs) rej)
         = history @ [error_turn env ''Operation cancelled'' (date_now env 0)]"
    by (simp add: query_final 3)
  have 5: "arrays (snd (query env history (c # cs) rej)) 0 = history"
    unfolding query_def f by (simp add: catch_block_def onMessage_def start_def)
  show ?thesis unfolding Let_def using 1 2 3 5 by (simp add: error_turn_def)
qed

text \<open>The signal set from the start, one text fragment waiting in the stream.\<close>

theorem cancelled_at_first_chunk_witness:
  "aborted (example_env\<lparr>aborted := \<lambda>k. True\<rparr>) 0
   \<and> fst (query (example_env\<lparr>aborted := \<lambda>k. True\<rparr>) example_history [TextDelta ''Here is ''] None)
       = Inl (JError ''Operation cancelled'' [])
   \<and> snapshots (query (example_env\<lparr>aborted := \<lambda>k. True\<rparr>) example_history [TextDelta ''Here is ''] None)
       = [example_history @
           [\<lparr>role = Assistant, content = Text ''Operation cancelled'',
             metadata = Some \<lparr>is_error = Some True, timestamp = Some 1700000000000,
                        session_id = Some ''session_1700000000000'', other_fields = []\<rparr>\<rparr>]]"
proof -
  have h: "aborted (example_env\<lparr>aborted := \<lambda>k. True\<rparr>) 0" by simp
  show ?thesis
    using h cancelled_at_first_chunk [OF h, of example_history "TextDelta ''Here is ''" "[]" None]
    by (simp add: Let_def example_env_def)
qed

section \<open>Text fragments\<close>

lemma after_text_delta: "after_chunk env k T (TextDelta t) = append_text T t"
  by (simp add: after_chunk_def text_delta_def append_text_def mergeable_def)

lemma mergeable_append_text: "mergeable (append_text T t)"
  by (simp add: append_text_def mergeable_def not_flagged_error_def)

lemma append_text_twice: "append_text (append_text T a) b = append_text T (a @ b)"
proof -
  have "append_text (append_text T a) b
        = butlast (append_text T a) @
            [(last (append_text T a))\<lparr>content := Text (text_of (content (last (append_text T a))) @ b)\<rparr>]"
    using mergeable_append_text[of T a] by (simp add: append_text_def[of "append_text T a"])
  also have "\<dots> = append_text T (a @ b)"
    by (simp add: append_text_def)
  finally show ?thesis .
qed

lemma fragments_in_order:
  "fs \<noteq> [] \<Longrightarrow> \<forall>j<length fs. \<not> aborted env (k + j) \<Longrightarrow>
   last (T # trace env k T (map TextDelta fs)) = append_text T (concat fs)"
proof (induction fs arbitrary: T k)
  case Nil
  then show ?case by simp
next
  case (Cons f fs)
  have n0: "\<not> aborted env k" using Cons.prems(2) by force
  have ns: "\<forall>j<length fs. \<not> aborted env (Suc k + j)" using Cons.prems(2) by force
  show ?case
  proof (cases "fs = []")
    case True
    then show ?thesis using n0 by (simp add: after_text_delta)
  next
    case False
    from Cons.IH[OF False ns, of "append_text T f"]
    show ?thesis using n0 by (simp add: after_text_delta append_text_twice)
  qed
qed

text \<open>
  C1, as amended. For every run of one or more consecutive text-fragment events
  processed by the reducer without cancellation: if the transcript before the
  run does not end with an assistant Turn that has plain-text content and no
  error flag, the transcript after the run is the one before plus exactly one
  new assistant Turn, without metadata, whose content is the concatenation of
  the fragments in arrival order; if it does end with such a Turn, no Turn is
  added, and that last Turn keeps its role and metadata while its content becomes
  its previous content followed by the concatenation of the fragments.
\<close>

theorem text_run:
  assumes "fragments \<noteq> []"
    and "\<forall>j<length fragments. \<not> aborted env (processed s + j)"
  shows "current (snd (for_await env rej (map TextDelta fragments) s))
         = (if mergeable (current s)
            then butlast (current s) @
                 [(last (current s))\<lparr>content :=
                    Text (text_of (content (last (current s))) @ concat fragments)\<rparr>]
            else current s @
                 [\<lparr>role = Assistant, content = Text (concat fragments), metadata = None\<rparr>])"
  using fragments_in_order[OF assms, of "current s"]
  by (simp add: for_await_current append_text_def)

text \<open>The two fragments of the login-screen scenario after the user's request.\<close>

theorem text_run_witness:
  "[''Here is '', ''the design.''] \<noteq> []
   \<and> \<not> mergeable (current (start example_history))
   \<and> current (snd (for_await example_env None
         (map TextDelta [''Here is '', ''the design.'']) (start example_history)))
     = example_history @
         [\<lparr>role = Assistant, content = Text ''Here is the design.'', metadata = None\<rparr>]"
proof -
  have h: "[''Here is '', ''the design.''] \<noteq> ([] :: string list)"
    "\<forall>j<length [''Here is '', ''the design.''].
        \<not> aborted example_env (processed (start example_history) + j)"
    by (simp_all add: example_env_def)
  have m: "\<not> mergeable (current (start example_history))"
    by (simp add: mergeable_def start_def current_def example_history_def)
  show ?thesis
    using m text_run [OF h, of None]
    by (simp add: start_facts del: for_await.simps)
qed

text \<open>
  C1 as stated fails when the transcript already ends with an assistant
  plain-text Turn: a history of one such Turn, ``Hi'', and the fragment
  `` there'' give a transcript of one Turn, ``Hi there''. No Turn is new, and no
  Turn has the fragment as its content.
\<close>

theorem text_run_into_existing_turn:
  "final_transcript (query example_env
      [\<lparr>role = Assistant, content = Text ''Hi'', metadata = None\<rparr>]
      [TextDelta '' there''] None)
     = [\<lparr>role = Assistant, content = Text ''Hi there'', metadata = None\<rparr>]
   \<and> length (final_transcript (query example_env
      [\<lparr>role = Assistant, content = Text ''Hi'', metadata = None\<rparr>]
      [TextDelta '' there''] None))
     = length [\<lparr>role = Assistant, content = Text ''Hi'', metadata = None\<rparr>]"
  by (simp add: query_def final_transcript_def example_env_def start_def loop_body_def
        onMessage_def current_def text_delta_def not_flagged_error_def)

section \<open>Tool calls\<close>

lemma findIndex_SomeD:
  "findIndex p xs = Some j \<Longrightarrow> j < length xs \<and> p (xs ! j)"
proof (induction xs arbitrary: j)
  case Nil
  then show ?case by simp
next
  case (Cons x xs)
  then show ?case by (auto split: if_splits)
qed

lemma findIndex_update:
  "findIndex p xs = Some j \<Longrightarrow> p y \<Longrightarrow> findIndex p (xs[j := y]) = Some j"
proof (induction xs arbitrary: j)
  case Nil
  then show ?case by simp
next
  case (Cons x xs)
  then show ?case by (auto split: if_splits)
qed

lemma scan_back_append:
  "n \<le> length xs \<Longrightarrow> scan_back (xs @ ys) i nm inp n = scan_back xs i nm inp n"
proof (induction n)
  case 0
  show ?case by simp
next
  case (Suc n)
  then show ?case by (simp add: nth_append Let_def split: content.split option.split)
qed

lemma scan_back_hit_last:
  "scan_back (xs @ [tool_call_turn i nm0 inp0]) i nm inp (Suc (length xs))
     = Some (length xs, tool_call_turn i nm inp)"
  by (simp add: tool_call_turn_def)

lemma scan_back_miss_last:
  "i \<noteq> i' \<Longrightarrow>
   scan_back (xs @ [tool_call_turn i' nm0 inp0]) i nm inp (Suc (length xs))
     = scan_back xs i nm inp (length xs)"
  using scan_back_append[of "length xs" xs "[tool_call_turn i' nm0 inp0]" i nm inp]
  by (simp add: tool_call_turn_def)

lemma scan_back_SomeD:
  "scan_back msgs i nm inp k = Some (j, m') \<Longrightarrow>
     j < k \<and> role (msgs ! j) = Assistant \<and>
     (\<exists>ps q. content (msgs ! j) = Parts ps \<and> findIndex (is_tool_call i) ps = Some q
        \<and> m' = (msgs ! j)\<lparr>content := Parts (ps[q := ToolCallPart i nm inp])\<rparr>)"
proof (induction k)
  case 0
  then show ?case by simp
next
  case (Suc k)
  then show ?case
    by (auto simp: Let_def less_Suc_eq split: content.splits if_splits option.splits)
qed

lemma scan_back_again:
  "scan_back msgs i nm inp k = Some (j, m') \<Longrightarrow> k \<le> length msgs \<Longrightarrow>
   scan_back (msgs[j := m']) i nm inp k = Some (j, m')"
proof (induction k)
  case 0
  then show ?case by simp
next
  case (Suc k)
  show ?case
  proof (cases "scan_back msgs i nm inp k = Some (j, m') \<and> j < k")
    case True
    then have "msgs[j := m'] ! k = msgs ! k" by simp
    moreover have "scan_back (msgs[j := m']) i nm inp k = Some (j, m')"
      using True Suc by simp
    ultimately show ?thesis using Suc.prems(1) True
      by (auto simp: Let_def split: content.splits if_splits option.splits)
  next
    case False
    from scan_back_SomeD[OF Suc.prems(1)] obtain ps q where
      j: "j < Suc k" and r: "role (msgs ! j) = Assistant" and c: "content (msgs ! j) = Parts ps"
      and f: "findIndex (is_tool_call i) ps = Some q"
      and m: "m' = (msgs ! j)\<lparr>content := Parts (ps[q := ToolCallPart i nm inp])\<rparr>"
      by blast
    have jk: "j = k"
    proof (rule ccontr)
      assume "j \<noteq> k"
      then have "j < k" using j by simp
      moreover have "scan_back msgs i nm inp k = Some (j, m')"
        using Suc.prems(1) \<open>j < k\<close> scan_back_SomeD[of msgs i nm inp k]
        by (auto simp: Let_def split: content.splits if_splits option.splits)
      ultimately show False using False by simp
    qed
    have at: "msgs[j := m'] ! k = m'" using jk Suc.prems(2) by simp
    have f': "findIndex (is_tool_call i) (ps[q := ToolCallPart i nm inp]) = Some q"
      using findIndex_update[OF f] by simp
    show ?thesis using at f' m r jk by simp
  qed
qed

lemma after_tool_input_start:
  "after_chunk env k T (ToolInputStart i nm) = T @ [tool_call_turn i nm (JObj [])]"
  by (simp add: after_chunk_def)

lemma after_tool_call_opened:
  "after_chunk env k (T @ [tool_call_turn i nm0 inp0]) (ToolCall i nm inp)
     = T @ [tool_call_turn i nm inp]"
  by (simp add: after_chunk_def tool_call_def scan_back_hit_last del: scan_back.simps)

lemma after_tool_call_idem:
  "after_chunk env k' (after_chunk env k T (ToolCall i nm inp)) (ToolCall i nm inp)
     = after_chunk env k T (ToolCall i nm inp)"
proof (cases "scan_back T i nm inp (length T)")
  case None
  then have 1: "after_chunk env k T (ToolCall i nm inp) = T @ [tool_call_turn i nm inp]"
    by (simp add: after_chunk_def tool_call_def)
  show ?thesis unfolding 1 by (rule after_tool_call_opened)
next
  case (Some hit)
  obtain j m' where hit: "hit = (j, m')" by (cases hit)
  have 1: "after_chunk env k T (ToolCall i nm inp) = T[j := m']"
    using Some hit by (simp add: after_chunk_def tool_call_def)
  have "scan_back (T[j := m']) i nm inp (length T) = Some (j, m')"
    using scan_back_again[of T i nm inp "length T" j m'] Some hit by simp
  then have "after_chunk env k' (T[j := m']) (ToolCall i nm inp) = (T[j := m'])[j := m']"
    by (simp add: after_chunk_def tool_call_def)
  then show ?thesis unfolding 1 by simp
qed


lemma after_tool_result:
  "after_chunk env k T (ToolResult i nm out)
     = T @ [tool_result_turn i nm (guessToolResultOutput env out) None]"
  by (simp add: after_chunk_def)

text \<open>
  C2. Open A, open B, finalize B, finalize A, with distinct ids A and B and
  whatever tool names and inputs, processed without cancellation from any
  transcript: the result is that transcript followed by two assistant Turns of
  one ToolCall Part each, the first with id A and A's finalized name and input,
  the second with id B and B's finalized name and input. Nothing else is added,
  and nothing before is changed, whichever ids the earlier Turns hold, because
  the scan starts at the most recent Turn.
\<close>

theorem interleaved_tool_calls:
  assumes "A \<noteq> B"
    and "\<forall>j<4. \<not> aborted env (processed s + j)"
  shows "current (snd (for_await env rej
            [ToolInputStart A nameA, ToolInputStart B nameB,
             ToolCall B nameB' inputB, ToolCall A nameA' inputA] s))
         = current s @ [tool_call_turn A nameA' inputA, tool_call_turn B nameB' inputB]"
proof -
  let ?T = "current s"
  have n: "\<not> aborted env (processed s)" "\<not> aborted env (Suc (processed s))"
    "\<not> aborted env (Suc (Suc (processed s)))" "\<not> aborted env (Suc (Suc (Suc (processed s))))"
    using assms(2) by (auto simp: numeral_eq_Suc dest: spec[of _ 0] spec[of _ 1] spec[of _ 2] spec[of _ 3])
  have b: "after_chunk env k ((?T @ [tool_call_turn A nameA (JObj [])]) @ [tool_call_turn B nameB (JObj [])])
             (ToolCall B nameB' inputB)
           = (?T @ [tool_call_turn A nameA (JObj [])]) @ [tool_call_turn B nameB' inputB]" for k
    by (rule after_tool_call_opened)
  have "scan_back ((?T @ [tool_call_turn A nameA (JObj [])]) @ [tool_call_turn B nameB' inputB])
          A nameA' inputA (Suc (length (?T @ [tool_call_turn A nameA (JObj [])])))
        = scan_back (?T @ [tool_call_turn A nameA (JObj [])]) A nameA' inputA
            (length (?T @ [tool_call_turn A nameA (JObj [])]))"
    using assms(1) by (rule scan_back_miss_last)
  also have "\<dots> = Some (length ?T, tool_call_turn A nameA' inputA)"
    using scan_back_hit_last[of ?T A nameA "JObj []" nameA' inputA] by simp
  finally have a: "after_chunk env k ((?T @ [tool_call_turn A nameA (JObj [])]) @ [tool_call_turn B nameB' inputB])
             (ToolCall A nameA' inputA)
           = ?T @ [tool_call_turn A nameA' inputA, tool_call_turn B nameB' inputB]" for k
    by (simp add: after_chunk_def tool_call_def del: scan_back.simps)
  have "current (snd (for_await env rej
            [ToolInputStart A nameA, ToolInputStart B nameB,
             ToolCall B nameB' inputB, ToolCall A nameA' inputA] s))
        = last (?T # trace env (processed s) ?T
            [ToolInputStart A nameA, ToolInputStart B nameB,
             ToolCall B nameB' inputB, ToolCall A nameA' inputA])"
    by (rule for_await_current)
  also have "\<dots> = ?T @ [tool_call_turn A nameA' inputA, tool_call_turn B nameB' inputB]"
    using n b a by (simp add: after_tool_input_start del: append_assoc)
  finally show ?thesis .
qed

text \<open>Two calls in flight after the user's request, finalized in reverse order.\<close>

theorem interleaved_tool_calls_witness:
  "''a'' \<noteq> ''b''
   \<and> current (snd (for_await example_env None
       [ToolInputStart ''a'' ''read'', ToolInputStart ''b'' ''write'',
        ToolCall ''b'' ''write'' (JObj [(''path'', JStr ''b.html'')]),
        ToolCall ''a'' ''read'' (JObj [(''path'', JStr ''a.html'')])] (start example_history)))
     = example_history @
       [tool_call_turn ''a'' ''read'' (JObj [(''path'', JStr ''a.html'')]),
        tool_call_turn ''b'' ''write'' (JObj [(''path'', JStr ''b.html'')])]"
proof -
  have h: "''a'' \<noteq> ''b''"
    "\<forall>j<4. \<not> aborted example_env (processed (start example_history) + j)"
    by (simp_all add: example_env_def)
  show ?thesis
    using h(1) interleaved_tool_calls [OF h, of None "''read''" "''write''" "''write''"
      "JObj [(''path'', JStr ''b.html'')]" "''read''" "JObj [(''path'', JStr ''a.html'')]"]
    by (simp add: start_facts del: for_await.simps)
qed

text \<open>
  C8. Processing the same tool-call-finalized event (same id, tool name and
  input) twice in a row, without cancellation, leaves the transcript exactly as
  it is after processing it once, from any transcript: the second pass finds the
  Part the first one wrote or appended, and writes the same Part over it.
\<close>

theorem finalize_twice:
  assumes "\<not> aborted env (processed s)" and "\<not> aborted env (Suc (processed s))"
  shows "current (snd (for_await env rej [ToolCall i nm inp, ToolCall i nm inp] s))
         = current (snd (for_await env rej [ToolCall i nm inp] s))"
proof -
  have "current (snd (for_await env rej [ToolCall i nm inp, ToolCall i nm inp] s))
        = last (current s # trace env (processed s) (current s) [ToolCall i nm inp, ToolCall i nm inp])"
    by (rule for_await_current)
  also have "\<dots> = after_chunk env (processed s) (current s) (ToolCall i nm inp)"
    using assms by (simp add: after_tool_call_idem)
  also have "\<dots> = last (current s # trace env (processed s) (current s) [ToolCall i nm inp])"
    using assms by simp
  also have "\<dots> = current (snd (for_await env rej [ToolCall i nm inp] s))"
    by (rule for_await_current[symmetric])
  finally show ?thesis .
qed

text \<open>An opened call, finalized twice.\<close>

theorem finalize_twice_witness:
  "\<not> aborted example_env (processed (start [tool_call_turn ''t1'' ''write'' (JObj [])]))
   \<and> \<not> aborted example_env (Suc (processed (start [tool_call_turn ''t1'' ''write'' (JObj [])])))
   \<and> current (snd (for_await example_env None
        [ToolCall ''t1'' ''write'' (JObj [(''path'', JStr ''a.html'')]),
         ToolCall ''t1'' ''write'' (JObj [(''path'', JStr ''a.html'')])]
        (start [tool_call_turn ''t1'' ''write'' (JObj [])])))
     = [tool_call_turn ''t1'' ''write'' (JObj [(''path'', JStr ''a.html'')])]"
proof -
  have h: "\<not> aborted example_env (processed (start [tool_call_turn ''t1'' ''write'' (JObj [])]))"
      "\<not> aborted example_env (Suc (processed (start [tool_call_turn ''t1'' ''write'' (JObj [])])))"
    by (simp_all add: example_env_def)
  have one: "current (snd (for_await example_env None
        [ToolCall ''t1'' ''write'' (JObj [(''path'', JStr ''a.html'')])]
        (start [tool_call_turn ''t1'' ''write'' (JObj [])])))
     = [tool_call_turn ''t1'' ''write'' (JObj [(''path'', JStr ''a.html'')])]"
    by (simp add: example_env_def start_def loop_body_def onMessage_def current_def tool_call_def
        tool_call_turn_def)
  show ?thesis
    using h finalize_twice [OF h, of None "''t1''" "''write''" "JObj [(''path'', JStr ''a.html'')]"] one
    by simp
qed

text \<open>
  C3, at the failing input: an empty history and the stream tool-call-opened
  t1, tool-call-finalized t1. The first call of the observer passes the array at
  address 1, which then holds the call with empty input. The second event is
  handled by \<open>updatedMessages[i] = msg\<close>: the second call passes the same
  address, and the array the observer was given first now holds the finalized
  input.
\<close>

theorem finalize_overwrites_delivered_array:
  "onMessage_calls (snd (query example_env []
       [ToolInputStart ''t1'' ''write'',
        ToolCall ''t1'' ''write'' (JObj [(''path'', JStr ''a.html'')])] None))
     = [(1, [tool_call_turn ''t1'' ''write'' (JObj [])]),
        (1, [tool_call_turn ''t1'' ''write'' (JObj [(''path'', JStr ''a.html'')])])]
   \<and> arrays (snd (query example_env []
       [ToolInputStart ''t1'' ''write'',
        ToolCall ''t1'' ''write'' (JObj [(''path'', JStr ''a.html'')])] None)) 1
     = [tool_call_turn ''t1'' ''write'' (JObj [(''path'', JStr ''a.html'')])]"
  by (simp add: query_def example_env_def start_def loop_body_def onMessage_def current_def
        tool_call_def tool_call_turn_def)




section \<open>Stream errors\<close>

lemma after_stream_error:
  "after_chunk env k T (StreamError e)
     = T @ [error_turn env (extractErrorMessage env e) (date_now env k)]"
  by (simp add: after_chunk_def)

text \<open>
  C7. When the signal is not set during the run, a stream-error event at any
  position of the stream appends to the transcript before it exactly one
  assistant Turn, whose content is the normalized error message and whose
  metadata is the error flag, the clock reading and the session id of this call;
  that transcript is delivered to the observer. The loop then goes on: each of
  the events after the error is processed in turn, starting from the transcript
  with the error Turn, and delivered, and \<open>query\<close> ends as the stream ends
  (normally, unless the stream itself rejects).
\<close>

theorem stream_error_continues:
  assumes "\<forall>j<Suc (length pre + length post). \<not> aborted env j"
  shows "let before = final_transcript (query env history pre None);
             errorTurn = \<lparr>role = Assistant, content = Text (extractErrorMessage env e),
                          metadata = Some \<lparr>is_error = Some True,
                                           timestamp = Some (date_now env (length pre)),
                                           session_id = Some (sessionId env),
                                           other_fields = []\<rparr>\<rparr>;
             r = query env history (pre @ StreamError e # post) rej
         in snapshots r ! length pre = before @ [errorTurn]
          \<and> take (length post) (drop (Suc (length pre)) (snapshots r))
              = trace env (Suc (length pre)) (before @ [errorTurn]) post
          \<and> length (trace env (Suc (length pre)) (before @ [errorTurn]) post) = length post
          \<and> (case fst r of Inl x \<Rightarrow> Some x | Inr a \<Rightarrow> None) = rej"
proof -
  let ?cs = "pre @ StreamError e # post"
  let ?before = "last (history # trace env 0 history pre)"
  let ?err = "error_turn env (extractErrorMessage env e) (date_now env (length pre))"
  have npre: "\<forall>j<length pre. \<not> aborted env (0 + j)" using assms by simp
  have nerr: "\<not> aborted env (length pre)" using assms by simp
  have npost: "\<forall>j<length post. \<not> aborted env (Suc (length pre) + j)" using assms by simp
  have nall: "\<forall>j<length ?cs. \<not> aborted env (0 + j)" using assms by simp
  have lpre: "length (trace env 0 history pre) = length pre"
    by (rule trace_not_aborted[OF npre])
  have lpost: "length (trace env (Suc (length pre)) (?before @ [?err]) post) = length post"
    by (rule trace_not_aborted[OF npost])
  have lall: "length (trace env 0 history ?cs) = length ?cs"
    by (rule trace_not_aborted[OF nall])
  have tr: "trace env 0 history ?cs
        = trace env 0 history pre @ (?before @ [?err]) #
            trace env (Suc (length pre)) (?before @ [?err]) post"
    using trace_append[OF npre, of history "StreamError e # post"] nerr
    by (simp add: after_stream_error)
  have xpre: "loop_exit env history pre None = None"
    by (simp add: loop_exit_def lpre)
  have before: "final_transcript (query env history pre None) = ?before"
    by (simp add: query_final query_snapshots xpre)
  have xall: "loop_exit env history ?cs rej = rej"
    using lall by (simp add: loop_exit_def)
  have snaps: "snapshots (query env history ?cs rej)
        = (trace env 0 history pre @ (?before @ [?err]) #
            trace env (Suc (length pre)) (?before @ [?err]) post) @
          (case rej of None \<Rightarrow> []
           | Some x \<Rightarrow> [last (history # trace env 0 history ?cs) @
               [error_turn env (extractErrorMessage env x)
                  (date_now env (length (trace env 0 history ?cs)))]])"
    unfolding query_snapshots xall tr[symmetric] ..
  have 1: "snapshots (query env history ?cs rej) ! length pre = ?before @ [?err]"
    unfolding snaps using lpre by (simp add: nth_append)
  have 3: "take (length post) (drop (Suc (length pre)) (snapshots (query env history ?cs rej)))
        = trace env (Suc (length pre)) (?before @ [?err]) post"
    unfolding snaps using lpre lpost by simp
  have 5: "(case fst (query env history ?cs rej) of Inl x \<Rightarrow> Some x | Inr a \<Rightarrow> None) = rej"
    using query_exit[of env history ?cs rej] xall by simp
  show ?thesis
    unfolding before Let_def using 1 3 lpost 5 by (simp add: error_turn_def)
qed

text \<open>A provider error between two text fragments.\<close>

theorem stream_error_continues_witness:
  "snapshots (query example_env example_history
       [TextDelta ''Working'',
        StreamError (JObj [(''type'', JStr ''overloaded_error''), (''message'', JStr ''Overloaded'')]),
        TextDelta ''Retrying''] None)
     = [example_history @ [\<lparr>role = Assistant, content = Text ''Working'', metadata = None\<rparr>],
        example_history @ [\<lparr>role = Assistant, content = Text ''Working'', metadata = None\<rparr>,
          error_turn example_env ''overloaded_error: Overloaded'' 1700000000001],
        example_history @ [\<lparr>role = Assistant, content = Text ''Working'', metadata = None\<rparr>,
          error_turn example_env ''overloaded_error: Overloaded'' 1700000000001,
          \<lparr>role = Assistant, content = Text ''Retrying'', metadata = None\<rparr>]]
   \<and> fst (query example_env example_history
       [TextDelta ''Working'',
        StreamError (JObj [(''type'', JStr ''overloaded_error''), (''message'', JStr ''Overloaded'')]),
        TextDelta ''Retrying''] None) = Inr 3"
proof -
  have h: "\<forall>j<Suc (length [TextDelta ''Working''] + length [TextDelta ''Retrying'']).
             \<not> aborted example_env j"
    by (simp add: example_env_def)
  have ev: "snapshots (query example_env example_history
       [TextDelta ''Working'',
        StreamError (JObj [(''type'', JStr ''overloaded_error''), (''message'', JStr ''Overloaded'')]),
        TextDelta ''Retrying''] None)
     = [example_history @ [\<lparr>role = Assistant, content = Text ''Working'', metadata = None\<rparr>],
        example_history @ [\<lparr>role = Assistant, content = Text ''Working'', metadata = None\<rparr>,
          error_turn example_env ''overloaded_error: Overloaded'' 1700000000001],
        example_history @ [\<lparr>role = Assistant, content = Text ''Working'', metadata = None\<rparr>,
          error_turn example_env ''overloaded_error: Overloaded'' 1700000000001,
          \<lparr>role = Assistant, content = Text ''Retrying'', metadata = None\<rparr>]]"
    by (simp add: query_snapshots loop_exit_def after_chunk_def text_delta_def error_turn_def
          not_flagged_error_def string_field_def example_env_def example_history_def)
  have r: "fst (query example_env example_history
       [TextDelta ''Working'',
        StreamError (JObj [(''type'', JStr ''overloaded_error''), (''message'', JStr ''Overloaded'')]),
        TextDelta ''Retrying''] None) = Inr 3"
    by (simp add: query_def start_def loop_body_def onMessage_def current_def text_delta_def
          error_turn_def not_flagged_error_def example_env_def example_history_def)
  show ?thesis
    using ev r stream_error_continues [OF h, of example_history
      "JObj [(''type'', JStr ''overloaded_error''), (''message'', JStr ''Overloaded'')]" None]
    by (simp add: Let_def)
qed

section \<open>What a run leaves of the history\<close>

lemma keeps_refl: "keeps H H"
  by (cases "H = []") (simp_all add: keeps_def butlast_conv_take last_conv_nth)

lemma keeps_snoc:
  assumes "keeps H T"
  shows "keeps H (T @ [m])"
proof (cases "H = []")
  case True
  then show ?thesis by (simp add: keeps_def)
next
  case False
  then have "length H - 1 < length T" using assms by (cases H) (simp_all add: keeps_def)
  then show ?thesis using assms False by (simp add: keeps_def nth_append)
qed

lemma keeps_update:
  assumes "keeps H T" and "length H \<le> j"
  shows "keeps H (T[j := m])"
proof (cases "H = []")
  case True
  then show ?thesis by (simp add: keeps_def)
next
  case False
  then have "length H - 1 < j" using assms(2) by (cases H) simp_all
  then show ?thesis using assms(1) False by (simp add: keeps_def)
qed

lemma keeps_append_text:
  assumes "keeps H T"
  shows "keeps H (append_text T t)"
proof (cases "mergeable T")
  case False
  then show ?thesis using assms by (simp add: append_text_def keeps_snoc)
next
  case True
  then have ne: "T \<noteq> []" by (simp add: mergeable_def)
  let ?L = "(last T)\<lparr>content := Text (text_of (content (last T)) @ t)\<rparr>"
  have eq: "append_text T t = T[length T - 1 := ?L]"
    using ne True by (induction T rule: rev_induct) (simp_all add: append_text_def)
  show ?thesis
  proof (cases "length H \<le> length T - 1")
    case True
    then show ?thesis unfolding eq using assms by (rule keeps_update[rotated])
  next
    case False
    moreover have "length H \<le> length T" using assms by (simp add: keeps_def)
    ultimately have l: "length T = length H" by arith
    then have "H \<noteq> []" using ne by auto
    then show ?thesis unfolding eq using assms l ne by (simp add: keeps_def)
  qed
qed

lemma scan_back_beyond_history:
  assumes k: "keeps H T" and fr: "\<not> list_ex (holds_call i) H"
    and sc: "scan_back T i nm inp n = Some (j, m')"
  shows "length H \<le> j"
proof (rule ccontr)
  assume "\<not> length H \<le> j"
  then have j: "j < length H" by simp
  then have ne: "H \<noteq> []" by auto
  from scan_back_SomeD[OF sc] have hc: "holds_call i (T ! j)"
    by (auto simp: holds_call_def)
  have no: "\<not> holds_call i x" if "x \<in> set H" for x
    using fr that by (auto simp: list_ex_iff)
  show False
  proof (cases "j < length H - 1")
    case True
    have "T ! j = take (length H - 1) T ! j" using True by simp
    also have "\<dots> = butlast H ! j" using k by (simp add: keeps_def)
    also have "\<dots> = H ! j" using True by (simp add: nth_butlast)
    finally have "T ! j \<in> set H" using j by simp
    then show False using no hc by blast
  next
    case False
    then have jl: "j = length H - 1" using j by simp
    from k ne have "T ! j = last H \<or> is_text (content (T ! j))"
      by (simp add: keeps_def jl)
    then show False
    proof
      assume "T ! j = last H"
      then have "T ! j \<in> set H" using ne by simp
      then show False using no hc by blast
    next
      assume "is_text (content (T ! j))"
      then show False using hc by (cases "content (T ! j)") (simp_all add: holds_call_def)
    qed
  qed
qed

lemma keeps_after_chunk:
  assumes "keeps H T" and "fresh_for H c"
  shows "keeps H (after_chunk env k T c)"
proof (cases c)
  case (TextDelta t)
  then show ?thesis using assms by (simp add: after_text_delta keeps_append_text)
next
  case (ToolCall i nm inp)
  show ?thesis
  proof (cases "scan_back T i nm inp (length T)")
    case None
    then show ?thesis using assms ToolCall
      by (simp add: after_chunk_def tool_call_def keeps_snoc)
  next
    case (Some hit)
    obtain j m' where hit: "hit = (j, m')" by (cases hit)
    have "length H \<le> j"
      using scan_back_beyond_history[OF assms(1), of i nm inp "length T" j m'] assms(2)
        ToolCall Some hit by simp
    then show ?thesis using assms(1) ToolCall Some hit
      by (simp add: after_chunk_def tool_call_def keeps_update)
  qed
qed (use assms in \<open>simp_all add: after_chunk_def keeps_snoc\<close>)

lemma keeps_trace:
  "keeps H T \<Longrightarrow> list_all (fresh_for H) cs \<Longrightarrow> list_all (keeps H) (T # trace env k T cs)"
proof (induction cs arbitrary: T k)
  case Nil
  then show ?case by simp
next
  case (Cons c cs)
  then have "keeps H (after_chunk env k T c)" by (simp add: keeps_after_chunk)
  from Cons.IH[OF this, of "Suc k"] Cons.prems show ?case by simp
qed

lemma quiet_after_chunk: "quiet c \<Longrightarrow> after_chunk env k T c = T"
  by (cases c) (simp_all add: after_chunk_def)

lemma trace_quiet:
  "list_all quiet cs \<Longrightarrow> \<forall>j<length cs. \<not> aborted env (k + j) \<Longrightarrow>
   trace env k T cs = replicate (length cs) T"
proof (induction cs arbitrary: k)
  case Nil
  show ?case by simp
next
  case (Cons c cs)
  have n0: "\<not> aborted env k" using Cons.prems(2) by force
  have ns: "\<forall>j<length cs. \<not> aborted env (Suc k + j)" using Cons.prems(2) by force
  show ?case using Cons.IH[OF _ ns] Cons.prems(1) n0 by (simp add: quiet_after_chunk)
qed

text \<open>
  C10, as amended. (1) If no tool-call-finalized event of the stream carries an
  id that a ToolCall Part of an assistant Turn of the history holds, then every
  snapshot and the final transcript are at least as long as the history and agree
  with it on every Turn but the last. (2) If the history ends with an assistant
  Turn having plain-text content and no error flag, and a text fragment arrives
  after nothing but events that leave the transcript alone (finish, tool-input
  fragments, structural markers), with the signal not set, then the snapshot
  delivered for that fragment is the history with the fragment concatenated onto
  its last Turn.
\<close>

theorem history_is_kept:
  "(list_all (fresh_for history) cs \<longrightarrow>
      list_all (\<lambda>T. length history \<le> length T \<and> take (length history - 1) T = butlast history)
        (final_transcript (query env history cs rej) # snapshots (query env history cs rej)))
   \<and> (mergeable history \<and> list_all quiet pre \<and> (\<forall>j\<le>length pre. \<not> aborted env j) \<longrightarrow>
      snapshots (query env history (pre @ TextDelta t # rest) rej) ! length pre
        = butlast history @
            [(last history)\<lparr>content := Text (text_of (content (last history)) @ t)\<rparr>])"
proof (intro conjI impI)
  assume fr: "list_all (fresh_for history) cs"
  have tr: "list_all (keeps history) (history # trace env 0 history cs)"
    using keeps_trace[OF keeps_refl fr] .
  then have "keeps history (last (history # trace env 0 history cs))"
    unfolding list_all_iff using last_in_set[of "history # trace env 0 history cs"] by blast
  then have "keeps history (last (history # trace env 0 history cs) @ [m])" for m
    by (rule keeps_snoc)
  with tr have "list_all (keeps history) (snapshots (query env history cs rej))"
    by (simp add: query_snapshots split: option.split)
  moreover from this tr have "keeps history (final_transcript (query env history cs rej))"
    unfolding query_final list_all_iff
    using last_in_set[of "history # snapshots (query env history cs rej)"] by auto
  ultimately have "list_all (keeps history)
      (final_transcript (query env history cs rej) # snapshots (query env history cs rej))"
    by simp
  then show "list_all (\<lambda>T. length history \<le> length T \<and> take (length history - 1) T = butlast history)
        (final_transcript (query env history cs rej) # snapshots (query env history cs rej))"
    unfolding list_all_iff keeps_def by blast
next
  assume a: "mergeable history \<and> list_all quiet pre \<and> (\<forall>j\<le>length pre. \<not> aborted env j)"
  then have q: "list_all quiet pre" and m: "mergeable history"
    and npre: "\<forall>j<length pre. \<not> aborted env (0 + j)" and nt: "\<not> aborted env (length pre)"
    by simp_all
  have tq: "trace env 0 history pre = replicate (length pre) history"
    by (rule trace_quiet[OF q npre])
  then have l: "last (history # trace env 0 history pre) = history" by simp
  have "trace env 0 history (pre @ TextDelta t # rest)
        = replicate (length pre) history @ append_text history t #
            trace env (Suc (length pre)) (append_text history t) rest"
    using trace_append[OF npre, of history "TextDelta t # rest"] nt
    by (simp add: tq after_text_delta)
  then have "snapshots (query env history (pre @ TextDelta t # rest) rej) ! length pre
        = append_text history t"
    by (simp add: query_snapshots nth_append)
  then show "snapshots (query env history (pre @ TextDelta t # rest) rej) ! length pre
        = butlast history @
            [(last history)\<lparr>content := Text (text_of (content (last history)) @ t)\<rparr>]"
    using m by (simp add: append_text_def)
qed

text \<open>An answered request continued after a start marker, then a new tool call.\<close>

theorem history_is_kept_witness:
  "list_all (fresh_for answered_history)
      [Marker ''start'', TextDelta '', here it is.'',
       ToolCall ''t1'' ''write'' (JObj [(''path'', JStr ''a.html'')])]
   \<and> mergeable answered_history
   \<and> list_all quiet [Marker ''start'']
   \<and> list_all (\<lambda>T. length answered_history \<le> length T
                  \<and> take (length answered_history - 1) T = butlast answered_history)
        (final_transcript (query example_env answered_history
            [Marker ''start'', TextDelta '', here it is.'',
             ToolCall ''t1'' ''write'' (JObj [(''path'', JStr ''a.html'')])] None)
         # snapshots (query example_env answered_history
            [Marker ''start'', TextDelta '', here it is.'',
             ToolCall ''t1'' ''write'' (JObj [(''path'', JStr ''a.html'')])] None))
   \<and> snapshots (query example_env answered_history
            [Marker ''start'', TextDelta '', here it is.'',
             ToolCall ''t1'' ''write'' (JObj [(''path'', JStr ''a.html'')])] None) ! 1
       = [\<lparr>role = User, content = Text ''design a login screen'', metadata = None\<rparr>,
          \<lparr>role = Assistant, content = Text ''Sure, here it is.'', metadata = None\<rparr>]"
proof -
  have f: "list_all (fresh_for answered_history)
      [Marker ''start'', TextDelta '', here it is.'',
       ToolCall ''t1'' ''write'' (JObj [(''path'', JStr ''a.html'')])]"
    by (simp add: answered_history_def holds_call_def)
  have m: "mergeable answered_history"
    by (simp add: answered_history_def mergeable_def not_flagged_error_def)
  have q: "list_all quiet [Marker ''start'']" by simp
  have n: "\<forall>j\<le>length [Marker ''start'']. \<not> aborted example_env j"
    by (simp add: example_env_def)
  have l: "butlast answered_history @
             [(last answered_history)\<lparr>content :=
                Text (text_of (content (last answered_history)) @ '', here it is.'')\<rparr>]
           = [\<lparr>role = User, content = Text ''design a login screen'', metadata = None\<rparr>,
              \<lparr>role = Assistant, content = Text ''Sure, here it is.'', metadata = None\<rparr>]"
    by (simp add: answered_history_def)
  show ?thesis
    using f m q n l
      history_is_kept [where history = answered_history and env = example_env and rej = None
        and cs = "[Marker ''start'', TextDelta '', here it is.'',
                   ToolCall ''t1'' ''write'' (JObj [(''path'', JStr ''a.html'')])]"
        and pre = "[Marker ''start'']" and t = "'', here it is.''"
        and rest = "[ToolCall ''t1'' ''write'' (JObj [(''path'', JStr ''a.html'')])]"]
    by simp
qed

text \<open>
  C10 as stated fails for a finalized tool call whose id a Turn of the history
  holds: the backward scan reaches into the history. The history is a ToolCall
  Turn for t1 with empty input followed by a user Turn; the stream finalizes t1;
  the one snapshot has the finalized input at position 0, which is not the last.
\<close>

theorem history_turn_rewritten:
  "snapshots (query example_env
      [tool_call_turn ''t1'' ''write'' (JObj []),
       \<lparr>role = User, content = Text ''again'', metadata = None\<rparr>]
      [ToolCall ''t1'' ''write'' (JObj [(''path'', JStr ''a.html'')])] None)
     = [[tool_call_turn ''t1'' ''write'' (JObj [(''path'', JStr ''a.html'')]),
         \<lparr>role = User, content = Text ''again'', metadata = None\<rparr>]]
   \<and> tool_call_turn ''t1'' ''write'' (JObj [(''path'', JStr ''a.html'')])
       \<noteq> tool_call_turn ''t1'' ''write'' (JObj [])"
  by (simp add: query_snapshots loop_exit_def after_chunk_def tool_call_def tool_call_turn_def
        example_env_def)

section \<open>Snapshots only grow\<close>

lemma part_grows_refl: "part_grows p p"
  by (cases p) simp_all

lemma turn_grows_refl: "turn_grows m m"
  by (cases "content m") (simp_all add: turn_grows_def list_all2_same part_grows_refl)

lemma extends_refl: "extends T T"
  by (simp add: extends_def list_all2_same turn_grows_refl)

lemma extends_snoc: "extends T (T @ [m])"
  by (simp add: extends_def list_all2_same turn_grows_refl)

lemma extends_update:
  assumes "turn_grows (T ! j) m'"
  shows "extends T (T[j := m'])"
proof -
  have "list_all2 turn_grows (T[j := T ! j]) (T[j := m'])"
    by (rule list_all2_update_cong) (simp_all add: list_all2_same turn_grows_refl assms)
  then show ?thesis by (simp add: extends_def)
qed

lemma extends_append_text: "extends T (append_text T t)"
proof (cases "mergeable T")
  case False
  then show ?thesis by (simp add: append_text_def extends_snoc)
next
  case True
  then have ne: "T \<noteq> []" and tx: "is_text (content (last T))" by (simp_all add: mergeable_def)
  have g: "turn_grows (last T) ((last T)\<lparr>content := Text (text_of (content (last T)) @ t)\<rparr>)"
    using tx by (cases "content (last T)") (simp_all add: turn_grows_def)
  have "butlast T @ [(last T)\<lparr>content := Text (text_of (content (last T)) @ t)\<rparr>]
        = T[length T - 1 := (last T)\<lparr>content := Text (text_of (content (last T)) @ t)\<rparr>]"
    using ne by (induction T rule: rev_induct) simp_all
  moreover have "T ! (length T - 1) = last T" using ne by (simp add: last_conv_nth)
  ultimately show ?thesis using True g extends_update[of T "length T - 1"]
    by (simp add: append_text_def)
qed

lemma orderly_tail: "orderly (c # cs) \<Longrightarrow> orderly cs"
  by (cases c) simp_all

lemma awaiting_start: "awaiting (length T) T cs"
  by (auto simp: awaiting_def)

lemma awaiting_tail: "awaiting n T (c # cs) \<Longrightarrow> awaiting n T cs"
  unfolding awaiting_def by (meson list.set_intros(2))

lemma awaiting_snoc:
  assumes "awaiting n T cs"
    and "\<And>i nm inp ps p. ToolCall i nm inp \<in> set cs \<Longrightarrow> content m = Parts ps \<Longrightarrow>
           p \<in> set ps \<Longrightarrow> is_tool_call i p \<Longrightarrow> p = ToolCallPart i nm (JObj [])"
  shows "awaiting n (T @ [m]) cs"
  unfolding awaiting_def
proof (intro allI impI)
  fix i nm inp j ps p
  assume a: "ToolCall i nm inp \<in> set cs \<and> n \<le> j \<and> j < length (T @ [m])
        \<and> content ((T @ [m]) ! j) = Parts ps \<and> p \<in> set ps \<and> is_tool_call i p"
  show "p = ToolCallPart i nm (JObj [])"
  proof (cases "j < length T")
    case True
    then have "(T @ [m]) ! j = T ! j" by (simp add: nth_append)
    with a True assms(1) show ?thesis unfolding awaiting_def by metis
  next
    case False
    then have "(T @ [m]) ! j = m" using a by (simp add: nth_append less_Suc_eq)
    with a assms(2) show ?thesis by metis
  qed
qed

lemma awaiting_snoc_text:
  assumes "awaiting n T cs" and "content m = Text s"
  shows "awaiting n (T @ [m]) cs"
  using assms(1) by (rule awaiting_snoc) (simp add: assms(2))

lemma awaiting_update:
  assumes "awaiting n T cs"
    and "\<And>i nm inp ps p. ToolCall i nm inp \<in> set cs \<Longrightarrow> n \<le> j \<Longrightarrow> content m = Parts ps \<Longrightarrow>
           p \<in> set ps \<Longrightarrow> is_tool_call i p \<Longrightarrow> p = ToolCallPart i nm (JObj [])"
  shows "awaiting n (T[j := m]) cs"
  unfolding awaiting_def
proof (intro allI impI)
  fix i nm inp j' ps p
  assume a: "ToolCall i nm inp \<in> set cs \<and> n \<le> j' \<and> j' < length (T[j := m])
        \<and> content (T[j := m] ! j') = Parts ps \<and> p \<in> set ps \<and> is_tool_call i p"
  show "p = ToolCallPart i nm (JObj [])"
  proof (cases "j' = j")
    case True
    then have "T[j := m] ! j' = m" using a by simp
    with a True assms(2) show ?thesis by metis
  next
    case False
    then have "T[j := m] ! j' = T ! j'" by simp
    with a assms(1) show ?thesis unfolding awaiting_def by (metis length_list_update)
  qed
qed

lemma awaiting_append_text:
  assumes "awaiting n T cs"
  shows "awaiting n (append_text T t) cs"
proof (cases "mergeable T")
  case False
  then show ?thesis using assms by (simp add: append_text_def awaiting_snoc_text)
next
  case True
  then have ne: "T \<noteq> []" by (simp add: mergeable_def)
  have eq: "append_text T t
        = T[length T - 1 := (last T)\<lparr>content := Text (text_of (content (last T)) @ t)\<rparr>]"
    using ne True by (induction T rule: rev_induct) (simp_all add: append_text_def)
  show ?thesis unfolding eq using assms by (rule awaiting_update) simp
qed

lemma awaiting_after_chunk:
  assumes aw: "awaiting n T (c # cs)" and ord: "orderly (c # cs)"
  shows "awaiting n (after_chunk env k T c) cs"
proof -
  have tl: "awaiting n T cs" using aw by (rule awaiting_tail)
  show ?thesis
  proof (cases c)
    case (TextDelta t)
    then show ?thesis using tl by (simp add: after_text_delta awaiting_append_text)
  next
    case (StreamError e)
    then show ?thesis using tl
      by (simp add: after_chunk_def awaiting_snoc_text error_turn_def)
  next
    case (ToolInputStart i nm)
    have ag: "list_all (agrees_with_open i nm) cs" using ord ToolInputStart by simp
    have "awaiting n (T @ [tool_call_turn i nm (JObj [])]) cs"
    proof (rule awaiting_snoc[OF tl])
      fix i' nm' inp' ps p
      assume c': "ToolCall i' nm' inp' \<in> set cs"
        and ct: "content (tool_call_turn i nm (JObj [])) = Parts ps"
        and p: "p \<in> set ps" and it: "is_tool_call i' p"
      from ct p have pe: "p = ToolCallPart i nm (JObj [])" by (auto simp: tool_call_turn_def)
      with it have "i' = i" by simp
      moreover from ag c' have "agrees_with_open i nm (ToolCall i' nm' inp')"
        unfolding list_all_iff by blast
      ultimately show "p = ToolCallPart i' nm' (JObj [])" using pe by simp
    qed
    then show ?thesis using ToolInputStart by (simp add: after_chunk_def)
  next
    case (ToolCall i nm inp)
    have oc: "list_all (other_call i) cs" using ord ToolCall by simp
    have other: "i' \<noteq> i" if "ToolCall i' nm' inp' \<in> set cs" for i' nm' inp'
      using oc that by (auto simp: list_all_iff)
    show ?thesis
    proof (cases "scan_back T i nm inp (length T)")
      case None
      have "awaiting n (T @ [tool_call_turn i nm inp]) cs"
      proof (rule awaiting_snoc[OF tl])
        fix i' nm' inp' ps p
        assume c': "ToolCall i' nm' inp' \<in> set cs"
          and ct: "content (tool_call_turn i nm inp) = Parts ps"
          and p: "p \<in> set ps" and it: "is_tool_call i' p"
        from ct p have "p = ToolCallPart i nm inp" by (auto simp: tool_call_turn_def)
        with it other[OF c'] show "p = ToolCallPart i' nm' (JObj [])" by simp
      qed
      then show ?thesis using ToolCall None by (simp add: after_chunk_def tool_call_def)
    next
      case (Some hit)
      obtain j m' where hit: "hit = (j, m')" by (cases hit)
      from scan_back_SomeD[of T i nm inp "length T" j m'] Some hit obtain ps q where
        jl: "j < length T" and c: "content (T ! j) = Parts ps"
        and m: "m' = (T ! j)\<lparr>content := Parts (ps[q := ToolCallPart i nm inp])\<rparr>"
        by auto
      have "awaiting n (T[j := m']) cs"
      proof (rule awaiting_update[OF tl])
        fix i' nm' inp' ps' p
        assume c': "ToolCall i' nm' inp' \<in> set cs" and nj: "n \<le> j"
          and ct: "content m' = Parts ps'" and p: "p \<in> set ps'" and it: "is_tool_call i' p"
        from ct m have "ps' = ps[q := ToolCallPart i nm inp]" by simp
        with p have "p = ToolCallPart i nm inp \<or> p \<in> set ps"
          using set_update_subset_insert[of ps q "ToolCallPart i nm inp"] by auto
        moreover have "p \<noteq> ToolCallPart i nm inp" using it other[OF c'] by auto
        ultimately have "p \<in> set ps" by simp
        with tl c' nj jl c it show "p = ToolCallPart i' nm' (JObj [])"
          unfolding awaiting_def by metis
      qed
      then show ?thesis using ToolCall Some hit by (simp add: after_chunk_def tool_call_def)
    qed
  next
    case (ToolResult i nm out)
    then show ?thesis using tl
      by (auto simp: after_chunk_def tool_result_turn_def intro!: awaiting_snoc)
  next
    case (ToolError i nm e)
    then show ?thesis using tl
      by (auto simp: after_chunk_def tool_result_turn_def intro!: awaiting_snoc)
  qed (use tl in \<open>simp_all add: after_chunk_def\<close>)
qed

lemma extends_tool_call:
  assumes k: "keeps H T" and fr: "\<not> list_ex (holds_call i) H"
    and aw: "awaiting (length H) T (ToolCall i nm inp # cs)"
  shows "extends T (after_chunk env k T (ToolCall i nm inp))"
proof (cases "scan_back T i nm inp (length T)")
  case None
  then show ?thesis by (simp add: after_chunk_def tool_call_def extends_snoc)
next
  case (Some hit)
  obtain j m' where hit: "hit = (j, m')" by (cases hit)
  have sc: "scan_back T i nm inp (length T) = Some (j, m')" using Some hit by simp
  from scan_back_SomeD[OF sc] obtain ps q where
    jl: "j < length T" and c: "content (T ! j) = Parts ps"
    and f: "findIndex (is_tool_call i) ps = Some q"
    and m: "m' = (T ! j)\<lparr>content := Parts (ps[q := ToolCallPart i nm inp])\<rparr>"
    by auto
  have hj: "length H \<le> j" by (rule scan_back_beyond_history[OF k fr sc])
  from findIndex_SomeD[OF f] have q: "q < length ps" "is_tool_call i (ps ! q)" by simp_all
  then have "ps ! q \<in> set ps" by simp
  with aw hj jl c q(2) have "ps ! q = ToolCallPart i nm (JObj [])"
    unfolding awaiting_def by (metis list.set_intros(1))
  then have pq: "part_grows (ps ! q) (ToolCallPart i nm inp)" by simp
  have "list_all2 part_grows (ps[q := ps ! q]) (ps[q := ToolCallPart i nm inp])"
    by (rule list_all2_update_cong) (simp_all add: list_all2_same part_grows_refl pq)
  then have "turn_grows (T ! j) m'"
    using c m by (simp add: turn_grows_def)
  then have "extends T (T[j := m'])" by (rule extends_update)
  then show ?thesis using sc by (simp add: after_chunk_def tool_call_def)
qed

lemma extends_after_chunk:
  assumes "keeps H T" and "fresh_for H c" and "awaiting (length H) T (c # cs)"
  shows "extends T (after_chunk env k T c)"
proof (cases c)
  case (TextDelta t)
  then show ?thesis by (simp add: after_text_delta extends_append_text)
next
  case (ToolCall i nm inp)
  then show ?thesis using assms by (simp add: extends_tool_call)
qed (simp_all add: after_chunk_def extends_refl extends_snoc)

lemma successively_trace:
  "keeps H T \<Longrightarrow> list_all (fresh_for H) cs \<Longrightarrow> orderly cs \<Longrightarrow> awaiting (length H) T cs \<Longrightarrow>
   successively extends (T # trace env k T cs)"
proof (induction cs arbitrary: T k)
  case Nil
  show ?case by simp
next
  case (Cons c cs)
  have fr: "fresh_for H c" "list_all (fresh_for H) cs" using Cons.prems(2) by simp_all
  have 1: "keeps H (after_chunk env k T c)" using Cons.prems(1) fr(1) by (rule keeps_after_chunk)
  have 2: "awaiting (length H) (after_chunk env k T c) cs"
    using Cons.prems(4,3) by (rule awaiting_after_chunk)
  have 3: "orderly cs" using Cons.prems(3) by (rule orderly_tail)
  have 4: "extends T (after_chunk env k T c)"
    using Cons.prems(1) fr(1) Cons.prems(4) by (rule extends_after_chunk)
  show ?case using Cons.IH[OF 1 fr(2) 3 2, of "Suc k"] 4 by simp
qed

text \<open>
  C4, as amended. Take a run in which no tool-call-finalized event carries an id
  that a ToolCall Part of the history holds, no id is finalized twice, and a
  finalized call names the tool named when its id was opened. Then, whatever the
  signal does and however the stream ends, the sequence made of the history and
  the snapshots handed to the observer grows step by step: a snapshot is never
  shorter than the one before, and every Turn of the one before is found at its
  position with the same role and metadata and with content that either has the
  old text as a prefix or has the same number of Parts, each unchanged or a
  ToolCall Part of the same id and tool whose input was empty and is now the
  finalized one. This holds up to and including the error Turn the catch block
  appends.
\<close>

theorem snapshots_only_grow:
  assumes "list_all (fresh_for history) cs" and "orderly cs"
  shows "successively extends (history # snapshots (query env history cs rej))"
proof -
  have tr: "successively extends (history # trace env 0 history cs)"
    using keeps_refl assms awaiting_start by (rule successively_trace)
  have "successively extends ((history # trace env 0 history cs) @
          [last (history # trace env 0 history cs) @ [m]])" for m
    using tr by (simp only: successively_append_iff) (simp add: extends_snoc)
  then show ?thesis
    using tr by (simp add: query_snapshots split: option.split)
qed

text \<open>Two fragments, then a tool call opened and finalized.\<close>

theorem snapshots_only_grow_witness:
  "snapshots (query example_env example_history
      [TextDelta ''Here is '', TextDelta ''the design.'', ToolInputStart ''t1'' ''write'',
       ToolCall ''t1'' ''write'' (JObj [(''path'', JStr ''a.html'')])] None)
     = [example_history @ [\<lparr>role = Assistant, content = Text ''Here is '', metadata = None\<rparr>],
        example_history @ [\<lparr>role = Assistant, content = Text ''Here is the design.'', metadata = None\<rparr>],
        example_history @ [\<lparr>role = Assistant, content = Text ''Here is the design.'', metadata = None\<rparr>,
                           tool_call_turn ''t1'' ''write'' (JObj [])],
        example_history @ [\<lparr>role = Assistant, content = Text ''Here is the design.'', metadata = None\<rparr>,
                           tool_call_turn ''t1'' ''write'' (JObj [(''path'', JStr ''a.html'')])]]
   \<and> successively extends
       [example_history,
        example_history @ [\<lparr>role = Assistant, content = Text ''Here is '', metadata = None\<rparr>],
        example_history @ [\<lparr>role = Assistant, content = Text ''Here is the design.'', metadata = None\<rparr>],
        example_history @ [\<lparr>role = Assistant, content = Text ''Here is the design.'', metadata = None\<rparr>,
                           tool_call_turn ''t1'' ''write'' (JObj [])],
        example_history @ [\<lparr>role = Assistant, content = Text ''Here is the design.'', metadata = None\<rparr>,
                           tool_call_turn ''t1'' ''write'' (JObj [(''path'', JStr ''a.html'')])]]"
proof -
  have ev: "snapshots (query example_env example_history
      [TextDelta ''Here is '', TextDelta ''the design.'', ToolInputStart ''t1'' ''write'',
       ToolCall ''t1'' ''write'' (JObj [(''path'', JStr ''a.html'')])] None)
     = [example_history @ [\<lparr>role = Assistant, content = Text ''Here is '', metadata = None\<rparr>],
        example_history @ [\<lparr>role = Assistant, content = Text ''Here is the design.'', metadata = None\<rparr>],
        example_history @ [\<lparr>role = Assistant, content = Text ''Here is the design.'', metadata = None\<rparr>,
                           tool_call_turn ''t1'' ''write'' (JObj [])],
        example_history @ [\<lparr>role = Assistant, content = Text ''Here is the design.'', metadata = None\<rparr>,
                           tool_call_turn ''t1'' ''write'' (JObj [(''path'', JStr ''a.html'')])]]"
    by (simp add: query_snapshots loop_exit_def after_chunk_def text_delta_def tool_call_def
          tool_call_turn_def not_flagged_error_def example_env_def example_history_def)
  have h: "list_all (fresh_for example_history)
      [TextDelta ''Here is '', TextDelta ''the design.'', ToolInputStart ''t1'' ''write'',
       ToolCall ''t1'' ''write'' (JObj [(''path'', JStr ''a.html'')])]"
    "orderly
      [TextDelta ''Here is '', TextDelta ''the design.'', ToolInputStart ''t1'' ''write'',
       ToolCall ''t1'' ''write'' (JObj [(''path'', JStr ''a.html'')])]"
    by (simp_all add: example_history_def holds_call_def)
  show ?thesis
    using snapshots_only_grow [OF h, of example_env None]
    unfolding ev by simp
qed

text \<open>
  C4 as stated fails when a tool-call-finalized event meets a ToolCall Part that
  already has an input: the Part is overwritten with the event's tool name and
  input, whatever it held. After the user's request the stream finalizes t1 as a
  write with a path and then finalizes t1 again as a read with the empty input:
  the second snapshot has lost the path the first one showed.
\<close>

theorem finalize_again_drops_input:
  "snapshots (query example_env example_history
      [ToolCall ''t1'' ''write'' (JObj [(''path'', JStr ''a.html'')]),
       ToolCall ''t1'' ''read'' (JObj [])] None)
     = [example_history @ [tool_call_turn ''t1'' ''write'' (JObj [(''path'', JStr ''a.html'')])],
        example_history @ [tool_call_turn ''t1'' ''read'' (JObj [])]]
   \<and> \<not> extends
        (example_history @ [tool_call_turn ''t1'' ''write'' (JObj [(''path'', JStr ''a.html'')])])
        (example_history @ [tool_call_turn ''t1'' ''read'' (JObj [])])"
proof -
  have "snapshots (query example_env example_history
      [ToolCall ''t1'' ''write'' (JObj [(''path'', JStr ''a.html'')]),
       ToolCall ''t1'' ''read'' (JObj [])] None)
     = [example_history @ [tool_call_turn ''t1'' ''write'' (JObj [(''path'', JStr ''a.html'')])],
        example_history @ [tool_call_turn ''t1'' ''read'' (JObj [])]]"
    by (simp add: query_snapshots loop_exit_def after_chunk_def tool_call_def tool_call_turn_def
          example_env_def example_history_def)
  moreover have "\<not> extends
        (example_history @ [tool_call_turn ''t1'' ''write'' (JObj [(''path'', JStr ''a.html'')])])
        (example_history @ [tool_call_turn ''t1'' ''read'' (JObj [])])"
    by (simp add: extends_def turn_grows_def tool_call_turn_def example_history_def)
  ultimately show ?thesis by simp
qed

end
